theory Spec2Isabelle
  imports Complex_Main "HOL-Library.Sublist" "HOL-Library.AList"
begin

section \<open>Python values and library functions used by the service\<close>

text \<open>
  The service receives events as decoded JSON (\<open>json.loads\<close>), so every value it touches
  is one of the Python values below. Strings are \<open>string\<close>, a character standing for a
  code point below 256; a \<open>dict\<close> is an association list in insertion order with unique
  keys.
\<close>

datatype pyfloat = Finite real | Infinite bool | NaN

datatype pyval =
    PNone
  | PBool bool
  | PInt int
  | PFloat pyfloat
  | PStr string
  | PList "pyval list"
  | PDict "(string \<times> pyval) list"

datatype py_error = IndexError | AttributeError | TypeError | OtherException

text \<open>Truth value of a Python object, as tested by \<open>if\<close>, \<open>and\<close> and \<open>not\<close>.\<close>

fun truthy :: "pyval \<Rightarrow> bool" where
  "truthy PNone = False"
| "truthy (PBool b) = b"
| "truthy (PInt n) = (n \<noteq> 0)"
| "truthy (PFloat (Finite x)) = (x \<noteq> 0)"
| "truthy (PFloat _) = True"
| "truthy (PStr s) = (s \<noteq> [])"
| "truthy (PList xs) = (xs \<noteq> [])"
| "truthy (PDict kvs) = (kvs \<noteq> [])"

text \<open>\<open>d.get(key, default)\<close> and \<open>d[key] = value\<close> on a dict.\<close>

definition dict_get :: "(string \<times> pyval) list \<Rightarrow> string \<Rightarrow> pyval \<Rightarrow> pyval" where
  "dict_get d key dflt = (case map_of d key of None \<Rightarrow> dflt | Some v \<Rightarrow> v)"

definition dict_set :: "(string \<times> pyval) list \<Rightarrow> string \<Rightarrow> pyval \<Rightarrow> (string \<times> pyval) list" where
  "dict_set d key v = AList.update key v d"

text \<open>
  \<open>s.split(sep)\<close> with a one-character separator, as a left-to-right scan: \<open>cur\<close> holds
  the characters of the current token in reverse. The result is never the empty list.
\<close>

fun split_scan :: "char \<Rightarrow> string \<Rightarrow> string \<Rightarrow> string list" where
  "split_scan sep cur [] = [rev cur]"
| "split_scan sep cur (c # cs) =
     (if c = sep then rev cur # split_scan sep [] cs else split_scan sep (c # cur) cs)"

definition py_split :: "char \<Rightarrow> string \<Rightarrow> string list" where
  "py_split sep s = split_scan sep [] s"

text \<open>\<open>sub in s\<close> on strings.\<close>

fun py_startswith :: "string \<Rightarrow> string \<Rightarrow> bool" where
  "py_startswith s [] = True"
| "py_startswith [] (p # ps) = False"
| "py_startswith (c # cs) (p # ps) = (c = p \<and> py_startswith cs ps)"

fun py_in :: "string \<Rightarrow> string \<Rightarrow> bool" where
  "py_in sub [] = (sub = [])"
| "py_in sub (c # cs) = (py_startswith (c # cs) sub \<or> py_in sub cs)"

text \<open>\<open>xs[0]\<close>: raises IndexError on the empty list.\<close>

definition index0 :: "'a list \<Rightarrow> py_error + 'a" where
  "index0 xs = (case xs of [] \<Rightarrow> Inl IndexError | x # _ \<Rightarrow> Inr x)"

text \<open>\<open>sep.join(xs)\<close>.\<close>

fun py_join :: "string \<Rightarrow> string list \<Rightarrow> string" where
  "py_join sep [] = []"
| "py_join sep [x] = x"
| "py_join sep (x # y # ys) = x @ sep @ py_join sep (y # ys)"

text \<open>
  \<open>str(n)\<close> and the format \<open>{n:02d}\<close> for the non-negative fields of a \<open>datetime\<close>.
\<close>

definition digit_char :: "nat \<Rightarrow> char" where
  "digit_char d = ''0123456789'' ! d"

function str_nat :: "nat \<Rightarrow> string" where
  "str_nat n = (if n < 10 then [digit_char n] else str_nat (n div 10) @ [digit_char (n mod 10)])"
  by pat_completeness auto
termination
  by (relation "measure (\<lambda>n. n)") auto

declare str_nat.simps [simp del]

definition fmt_02d :: "nat \<Rightarrow> string" where
  "fmt_02d n = (if n < 10 then CHR ''0'' # str_nat n else str_nat n)"

text \<open>
  \<open>os.path.basename\<close> (posixpath): everything after the last slash. On a value that is
  not a string, \<open>os.fspath\<close> raises TypeError.
\<close>

definition basename :: "string \<Rightarrow> string" where
  "basename p = rev (takeWhile (\<lambda>c. c \<noteq> CHR ''/'') (rev p))"

definition os_path_basename :: "pyval \<Rightarrow> py_error + string" where
  "os_path_basename v = (case v of PStr p \<Rightarrow> Inr (basename p) | _ \<Rightarrow> Inl TypeError)"

text \<open>The fields of \<open>datetime.now()\<close> that the service reads.\<close>

record datetime =
  dt_year :: nat
  dt_month :: nat
  dt_day :: nat
  dt_hour :: nat
  dt_minute :: nat
  dt_second :: nat

text \<open>\<open>now.strftime("%H%M%S")\<close>.\<close>

definition strftime_HMS :: "datetime \<Rightarrow> string" where
  "strftime_HMS now = fmt_02d (dt_hour now) @ fmt_02d (dt_minute now) @ fmt_02d (dt_second now)"

section \<open>DrowsinessCloudService._get_s3_paths\<close>

definition month_map :: "(string \<times> string) list" where
  "month_map =
     [(''Jan'', ''01''), (''Feb'', ''02''), (''Mar'', ''03''), (''Apr'', ''04''),
      (''May'', ''05''), (''Jun'', ''06''), (''Jul'', ''07''), (''Aug'', ''08''),
      (''Sep'', ''09''), (''Oct'', ''10''), (''Nov'', ''11''), (''Dec'', ''12'')]"

text \<open>
  The body of the \<open>try\<close> block. \<open>now\<close> is the value \<open>datetime.now()\<close> returns when the
  block reads the clock. A timestamp that is not a string has no \<open>split\<close> (AttributeError).
\<close>

definition get_s3_paths_try :: "datetime \<Rightarrow> pyval \<Rightarrow> pyval \<Rightarrow> py_error + (string \<times> string)" where
  "get_s3_paths_try now timestamp_str filename =
     (case timestamp_str of
        PStr ts \<Rightarrow>
          (let dt_part = take 2 (drop 1 (py_split CHR ''_'' ts)) in
           case index0 dt_part of
             Inl e \<Rightarrow> Inl e
           | Inr year \<Rightarrow>
               (case (if py_in ''Aug27_2025'' ts
                      then (let date_part = take 2 (py_split CHR ''_'' ts) in
                            case index0 date_part of
                              Inl e \<Rightarrow> Inl e
                            | Inr tok \<Rightarrow>
                                (let month_name = take 3 tok;
                                     day = drop 3 tok;
                                     month = (case map_of month_map month_name of
                                                None \<Rightarrow> ''01'' | Some m \<Rightarrow> m)
                                 in Inr (year, month, day)))
                      else Inr (str_nat (dt_year now), fmt_02d (dt_month now), fmt_02d (dt_day now)))
                of
                  Inl e \<Rightarrow> Inl e
                | Inr (year, month, day) \<Rightarrow>
                    (let date_path = year @ ''/'' @ month @ ''/'' @ day in
                     case os_path_basename filename of
                       Inl e \<Rightarrow> Inl e
                     | Inr base \<Rightarrow>
                         Inr (''snapshots/'' @ date_path @ ''/'' @ base, date_path))))
      | _ \<Rightarrow> Inl AttributeError)"

text \<open>
  The whole method: \<open>except Exception\<close> answers every error of the block with the current
  date. The handler calls \<open>os.path.basename\<close> again, outside any \<open>try\<close>.
\<close>

definition get_s3_paths :: "datetime \<Rightarrow> pyval \<Rightarrow> pyval \<Rightarrow> py_error + (string \<times> string)" where
  "get_s3_paths now timestamp_str filename =
     (case get_s3_paths_try now timestamp_str filename of
        Inr r \<Rightarrow> Inr r
      | Inl _ \<Rightarrow>
          (let date_path = str_nat (dt_year now) @ ''/'' @ fmt_02d (dt_month now) @ ''/'' @ fmt_02d (dt_day now) in
           case os_path_basename filename of
             Inl e \<Rightarrow> Inl e
           | Inr base \<Rightarrow> Inr (''snapshots/'' @ date_path @ ''/'' @ base, date_path)))"

section \<open>The environment: file system, storage backend, sleeping\<close>

text \<open>
  What the service does to the outside world is recorded in a \<open>world\<close>: which paths exist
  on disk, how the storage backend answers its successive calls, the calls made so far and
  the durations passed to \<open>time.sleep\<close>. Log output is not modelled.
  \<open>UploadFile local_path s3_key\<close> is \<open>s3_client.upload_file\<close> (content type image/jpeg),
  \<open>PutObject s3_key body\<close> is \<open>s3_client.put_object\<close> (content type application/x-jsonlines).
  The backend's answer to a call may depend on the call and on how many calls came before.
\<close>

datatype s3_call = UploadFile pyval string | PutObject string string

datatype s3_result = S3Ok | S3ClientError | S3OtherError

record world =
  file_exists :: "string \<Rightarrow> bool"
  exists_nonstr :: "pyval \<Rightarrow> py_error + bool"
  s3_backend :: "nat \<Rightarrow> s3_call \<Rightarrow> s3_result"
  s3_calls :: "s3_call list"
  sleeps :: "nat list"

text \<open>
  \<open>os.path.exists\<close>: a boolean on every string; what it does on a value that is not a
  string (a file descriptor number, or TypeError) is left to the environment.
\<close>

definition os_path_exists :: "world \<Rightarrow> pyval \<Rightarrow> py_error + bool" where
  "os_path_exists w v = (case v of PStr p \<Rightarrow> Inr (file_exists w p) | _ \<Rightarrow> exists_nonstr w v)"

section \<open>S3Manager\<close>

text \<open>
  \<open>upload_image\<close> and \<open>upload_jsonl\<close> contain the same loop \<open>for attempt in range(retries)\<close>,
  differing only in the backend call and the log text. The list argument holds the
  attempts still to run. Only \<open>ClientError\<close> is caught; any other exception of the backend
  call leaves the method.
\<close>

fun attempt_loop :: "s3_call \<Rightarrow> int \<Rightarrow> nat list \<Rightarrow> world \<Rightarrow> (py_error + bool) \<times> world" where
  "attempt_loop call retries [] w = (Inr False, w)"
| "attempt_loop call retries (attempt # rest) w =
     (let w1 = w\<lparr>s3_calls := s3_calls w @ [call]\<rparr> in
      case s3_backend w (length (s3_calls w)) call of
        S3Ok \<Rightarrow> (Inr True, w1)
      | S3ClientError \<Rightarrow>
          attempt_loop call retries rest
            (if int attempt < retries - 1 then w1\<lparr>sleeps := sleeps w1 @ [2 ^ attempt]\<rparr> else w1)
      | S3OtherError \<Rightarrow> (Inl OtherException, w1))"

definition upload_image :: "world \<Rightarrow> pyval \<Rightarrow> string \<Rightarrow> int \<Rightarrow> (py_error + bool) \<times> world" where
  "upload_image w local_path s3_key retries =
     (case os_path_exists w local_path of
        Inl e \<Rightarrow> (Inl e, w)
      | Inr False \<Rightarrow> (Inr False, w)
      | Inr True \<Rightarrow> attempt_loop (UploadFile local_path s3_key) retries [0..<nat retries] w)"

definition upload_jsonl :: "world \<Rightarrow> string \<Rightarrow> string \<Rightarrow> int \<Rightarrow> (py_error + bool) \<times> world" where
  "upload_jsonl w jsonl_content s3_key retries =
     attempt_loop (PutObject s3_key jsonl_content) retries [0..<nat retries] w"

section \<open>EventBuffer\<close>

text \<open>
  An event is a dict. \<open>lock\<close> tells whether the buffer's \<open>threading.Lock\<close> is held.
  \<open>with self.lock:\<close> acquires the lock, runs its body and releases the lock; on a lock
  that is already held the calling thread waits, and in this sequential model nobody
  releases it, so the call does not return (\<open>None\<close>). Clock readings (\<open>time.time()\<close>)
  are real numbers handed to the method that reads the clock.
\<close>

type_synonym event = "(string \<times> pyval) list"

record event_buffer =
  events :: "event list"
  flush_interval :: int
  last_flush :: real
  lock :: bool

definition with_lock :: "(event_buffer \<Rightarrow> 'a \<times> event_buffer) \<Rightarrow> event_buffer \<Rightarrow> ('a \<times> event_buffer) option" where
  "with_lock body b =
     (if lock b then None
      else (case body (b\<lparr>lock := True\<rparr>) of (r, b') \<Rightarrow> Some (r, b'\<lparr>lock := False\<rparr>)))"

definition EventBuffer_init :: "int \<Rightarrow> real \<Rightarrow> event_buffer" where
  "EventBuffer_init interval now =
     \<lparr>events = [], flush_interval = interval, last_flush = now, lock = False\<rparr>"

definition add_event :: "event \<Rightarrow> event_buffer \<Rightarrow> (unit \<times> event_buffer) option" where
  "add_event event = with_lock (\<lambda>b. ((), b\<lparr>events := events b @ [event]\<rparr>))"

definition should_flush :: "real \<Rightarrow> event_buffer \<Rightarrow> bool \<times> event_buffer" where
  "should_flush now b = (now - last_flush b \<ge> real_of_int (flush_interval b), b)"

definition get_and_clear_events :: "real \<Rightarrow> event_buffer \<Rightarrow> (event list \<times> event_buffer) option" where
  "get_and_clear_events now =
     with_lock (\<lambda>b. let evs = events b;
                         b1 = b\<lparr>events := []\<rparr>;
                         b2 = b1\<lparr>last_flush := now\<rparr>
                     in (evs, b2))"

definition get_count :: "event_buffer \<Rightarrow> (nat \<times> event_buffer) option" where
  "get_count = with_lock (\<lambda>b. (length (events b), b))"

text \<open>A caller that adds the events of a list one after the other.\<close>

fun add_events :: "event list \<Rightarrow> event_buffer \<Rightarrow> event_buffer option" where
  "add_events [] b = Some b"
| "add_events (e # es) b =
     (case add_event e b of None \<Rightarrow> None | Some (_, b') \<Rightarrow> add_events es b')"

section \<open>DrowsinessCloudService._process_event and _flush_event_buffer\<close>

text \<open>The fields of the service that the two methods read or write.\<close>

record service =
  event_buffer :: event_buffer
  events_received :: nat
  images_uploaded :: nat
  images_failed :: nat
  batches_uploaded :: nat
  batches_failed :: nat

text \<open>
  The body of the \<open>try\<close> block of \<open>_process_event\<close>. \<open>event_data\<close> is whatever
  \<open>json.loads\<close> returned; only a dict has \<open>get\<close>. The result is \<open>None\<close> when \<open>add_event\<close>
  does not return.
\<close>

definition process_event_try ::
  "datetime \<Rightarrow> pyval \<Rightarrow> service \<Rightarrow> world \<Rightarrow> ((py_error + unit) \<times> service \<times> world) option" where
  "process_event_try now event_data svc w =
     (case event_data of
        PDict d \<Rightarrow>
          (let timestamp = dict_get d ''timestamp'' (PStr []);
               image_path = dict_get d ''image'' (PStr [])
           in
           case (if truthy image_path \<and> image_path \<noteq> PStr ''failed_to_save''
                 then os_path_exists w image_path else Inr False) of
             Inl e \<Rightarrow> Some (Inl e, svc, w)
           | Inr usable \<Rightarrow>
               (case (if usable
                      then (case get_s3_paths now timestamp image_path of
                              Inl e \<Rightarrow> (Inl e, svc, w)
                            | Inr (snapshot_key, date_path) \<Rightarrow>
                                (case upload_image w image_path snapshot_key 3 of
                                   (Inl e, w') \<Rightarrow> (Inl e, svc, w')
                                 | (Inr True, w') \<Rightarrow>
                                     (Inr (dict_set d ''s3_image_path'' (PStr snapshot_key)),
                                      svc\<lparr>images_uploaded := images_uploaded svc + 1\<rparr>, w')
                                 | (Inr False, w') \<Rightarrow>
                                     (Inr (dict_set d ''s3_image_path'' (PStr ''upload_failed'')),
                                      svc\<lparr>images_failed := images_failed svc + 1\<rparr>, w')))
                      else (Inr (dict_set d ''s3_image_path'' (PStr ''file_not_found'')), svc, w))
                of
                  (Inl e, svc1, w1) \<Rightarrow> Some (Inl e, svc1, w1)
                | (Inr event, svc1, w1) \<Rightarrow>
                    (case add_event event (event_buffer svc1) of
                       None \<Rightarrow> None
                     | Some (_, buf) \<Rightarrow>
                         Some (Inr (),
                               svc1\<lparr>event_buffer := buf,
                                     events_received := events_received svc1 + 1\<rparr>,
                               w1))))
      | _ \<Rightarrow> Some (Inl AttributeError, svc, w))"

text \<open>The method: \<open>except Exception\<close> logs the error and returns.\<close>

definition process_event :: "datetime \<Rightarrow> pyval \<Rightarrow> service \<Rightarrow> world \<Rightarrow> (service \<times> world) option" where
  "process_event now event_data svc w =
     (case process_event_try now event_data svc w of
        None \<Rightarrow> None
      | Some (_, svc', w') \<Rightarrow> Some (svc', w'))"

text \<open>
  The body of the \<open>try\<close> block of \<open>_flush_event_buffer\<close>. \<open>json_dumps\<close> is \<open>json.dumps\<close>,
  a total function here: a buffered event is a dict of decoded JSON with string keys.
  \<open>now_path\<close> is the clock reading inside \<open>_get_s3_paths\<close>, \<open>now_key\<close> the later one for
  the file name.
\<close>

definition flush_event_buffer_try ::
  "(event \<Rightarrow> string) \<Rightarrow> datetime \<Rightarrow> datetime \<Rightarrow> event list \<Rightarrow> service \<Rightarrow> world
     \<Rightarrow> (py_error + unit) \<times> service \<times> world" where
  "flush_event_buffer_try json_dumps now_path now_key evs svc w =
     (case index0 evs of
        Inl e \<Rightarrow> (Inl e, svc, w)
      | Inr first_event \<Rightarrow>
          (let timestamp = dict_get first_event ''timestamp'' (PStr []) in
           case get_s3_paths now_path timestamp (PStr []) of
             Inl e \<Rightarrow> (Inl e, svc, w)
           | Inr (_, date_path) \<Rightarrow>
               (let jsonl_lines = map json_dumps evs;
                    jsonl_content = py_join [CHR 0x0A] jsonl_lines @ [CHR 0x0A];
                    current_time = strftime_HMS now_key;
                    logs_key = ''logs/'' @ date_path @ ''/events_'' @ current_time @ ''.jsonl''
                in
                case upload_jsonl w jsonl_content logs_key 3 of
                  (Inl e, w') \<Rightarrow> (Inl e, svc, w')
                | (Inr True, w') \<Rightarrow>
                    (Inr (), svc\<lparr>batches_uploaded := batches_uploaded svc + 1\<rparr>, w')
                | (Inr False, w') \<Rightarrow>
                    (Inr (), svc\<lparr>batches_failed := batches_failed svc + 1\<rparr>, w'))))"

text \<open>The method; \<open>t\<close> is the reading of \<open>time.time()\<close> inside \<open>get_and_clear_events\<close>.\<close>

definition flush_event_buffer ::
  "(event \<Rightarrow> string) \<Rightarrow> real \<Rightarrow> datetime \<Rightarrow> datetime \<Rightarrow> service \<Rightarrow> world
     \<Rightarrow> (service \<times> world) option" where
  "flush_event_buffer json_dumps t now_path now_key svc w =
     (case get_and_clear_events t (event_buffer svc) of
        None \<Rightarrow> None
      | Some (evs, buf) \<Rightarrow>
          (let svc1 = svc\<lparr>event_buffer := buf\<rparr> in
           if evs = [] then Some (svc1, w)
           else (case flush_event_buffer_try json_dumps now_path now_key evs svc1 w of
                   (Inl e, svc2, w2) \<Rightarrow>
                     Some (svc2\<lparr>batches_failed := batches_failed svc2 + 1\<rparr>, w2)
                 | (Inr _, svc2, w2) \<Rightarrow> Some (svc2, w2))))"

section \<open>EventBuffer called from several threads\<close>

text \<open>
  The statements of \<open>add_event\<close> and \<open>get_and_clear_events\<close>, one step each: entering and
  leaving \<open>with self.lock:\<close>, \<open>self.events.append(event)\<close>, \<open>events = self.events.copy()\<close>,
  \<open>self.events.clear()\<close> and \<open>self.last_flush = time.time()\<close> (with the clock reading it
  stores). A thread has the statements it still has to run and its local variable
  \<open>events\<close>; \<open>holds\<close> records whether it is inside its with-block, and no statement reads
  it. \<open>Acquire\<close> cannot run while the lock is held.
\<close>

datatype instr = Acquire | Release | Append event | Copy | Clear | Stamp real

record thread =
  prog :: "instr list"
  holds :: bool
  local_events :: "event list"

fun exec :: "instr \<Rightarrow> event_buffer \<Rightarrow> thread \<Rightarrow> (event_buffer \<times> thread) option" where
  "exec Acquire b t = (if lock b then None else Some (b\<lparr>lock := True\<rparr>, t\<lparr>holds := True\<rparr>))"
| "exec Release b t = Some (b\<lparr>lock := False\<rparr>, t\<lparr>holds := False\<rparr>)"
| "exec (Append event) b t = Some (b\<lparr>events := events b @ [event]\<rparr>, t)"
| "exec Copy b t = Some (b, t\<lparr>local_events := events b\<rparr>)"
| "exec Clear b t = Some (b\<lparr>events := []\<rparr>, t)"
| "exec (Stamp now) b t = Some (b\<lparr>last_flush := now\<rparr>, t)"

text \<open>The bodies of the two methods.\<close>

definition add_event_body :: "event \<Rightarrow> instr list" where
  "add_event_body event = [Acquire, Append event, Release]"

definition get_and_clear_events_body :: "real \<Rightarrow> instr list" where
  "get_and_clear_events_body now = [Acquire, Copy, Clear, Stamp now, Release]"

text \<open>
  The buffer shared by threads numbered by \<open>nat\<close>. \<open>appended\<close> records the events in the
  order in which their append statements ran. A schedule names the thread that takes
  each step; naming a thread that has finished or waits for the lock is not an
  execution (\<open>None\<close>). In \<open>initial\<close>, thread \<open>d\<close> is about to call
  \<open>get_and_clear_events\<close> and every other thread \<open>i\<close> is about to call \<open>add_event\<close> on each
  event of \<open>adds i\<close> in turn.
\<close>

fun appended_by :: "instr \<Rightarrow> event list" where
  "appended_by (Append event) = [event]"
| "appended_by _ = []"

record system =
  buf :: event_buffer
  threads :: "nat \<Rightarrow> thread"
  appended :: "event list"

definition step_thread :: "nat \<Rightarrow> system \<Rightarrow> system option" where
  "step_thread i s =
     (case prog (threads s i) of
        [] \<Rightarrow> None
      | ins # rest \<Rightarrow>
          (case exec ins (buf s) (threads s i) of
             None \<Rightarrow> None
           | Some (b', t') \<Rightarrow>
               Some \<lparr>buf = b',
                     threads = (threads s)(i := t'\<lparr>prog := rest\<rparr>),
                     appended = appended s @ appended_by ins\<rparr>))"

fun run_schedule :: "nat list \<Rightarrow> system \<Rightarrow> system option" where
  "run_schedule [] s = Some s"
| "run_schedule (i # sched) s =
     (case step_thread i s of None \<Rightarrow> None | Some s' \<Rightarrow> run_schedule sched s')"

definition initial :: "event_buffer \<Rightarrow> nat \<Rightarrow> real \<Rightarrow> (nat \<Rightarrow> event list) \<Rightarrow> system" where
  "initial b d now adds =
     \<lparr>buf = b,
      threads = (\<lambda>i. \<lparr>prog = (if i = d then get_and_clear_events_body now
                               else concat (map add_event_body (adds i))),
                       holds = False, local_events = []\<rparr>),
      appended = []\<rparr>"

text \<open>
  For the proofs: \<open>adder_rest h p\<close> says that \<open>p\<close> is what is left of a sequence of
  \<open>add_event\<close> calls, \<open>h\<close> telling whether the thread is inside a with-block;
  \<open>drain_phase\<close> lists what holds at each statement of the draining thread; \<open>excl\<close> says
  that the lock is held exactly when some thread is inside its with-block, and by one
  thread only.
\<close>

fun adder_rest :: "bool \<Rightarrow> instr list \<Rightarrow> bool" where
  "adder_rest h [] = (\<not> h)"
| "adder_rest h (Acquire # p) = (\<not> h \<and> adder_rest True p)"
| "adder_rest h (Release # p) = (h \<and> adder_rest False p)"
| "adder_rest h (Append event # p) = (h \<and> adder_rest h p)"
| "adder_rest h (_ # p) = False"

definition drain_phase :: "event list \<Rightarrow> nat \<Rightarrow> real \<Rightarrow> system \<Rightarrow> bool" where
  "drain_phase ev0 d now s =
     (let D = threads s d; seen = ev0 @ appended s in
        prog D = [Acquire, Copy, Clear, Stamp now, Release] \<and> \<not> holds D \<and>
          events (buf s) = seen
      \<or> prog D = [Copy, Clear, Stamp now, Release] \<and> holds D \<and> events (buf s) = seen
      \<or> prog D = [Clear, Stamp now, Release] \<and> holds D \<and> events (buf s) = seen \<and>
          local_events D = seen
      \<or> prog D = [Stamp now, Release] \<and> holds D \<and> events (buf s) = [] \<and>
          local_events D = seen
      \<or> prog D = [Release] \<and> holds D \<and> events (buf s) = [] \<and> local_events D = seen \<and>
          last_flush (buf s) = now
      \<or> prog D = [] \<and> \<not> holds D \<and> local_events D @ events (buf s) = seen \<and>
          last_flush (buf s) = now)"

definition excl :: "system \<Rightarrow> bool" where
  "excl s =
     ((lock (buf s) = (\<exists>i. holds (threads s i))) \<and>
      (\<forall>i j. holds (threads s i) \<and> holds (threads s j) \<longrightarrow> i = j))"

definition drain_inv :: "event list \<Rightarrow> nat \<Rightarrow> real \<Rightarrow> system \<Rightarrow> bool" where
  "drain_inv ev0 d now s =
     (excl s \<and>
      (\<forall>i. i \<noteq> d \<longrightarrow> adder_rest (holds (threads s i)) (prog (threads s i))) \<and>
      drain_phase ev0 d now s)"

section \<open>The session format of timestamps\<close>

text \<open>
  The format the timestamps of a recording session have: the first token between
  underscores is a month abbreviation of \<open>month_map\<close> followed by day digits, the second
  token is a year of four digits.
\<close>

definition is_digit :: "char \<Rightarrow> bool" where
  "is_digit c = (c \<in> set ''0123456789'')"

definition session_format :: "string \<Rightarrow> bool" where
  "session_format ts =
     (case py_split CHR ''_'' ts of
        tok # yr # _ \<Rightarrow>
          map_of month_map (take 3 tok) \<noteq> None \<and> drop 3 tok \<noteq> [] \<and>
          list_all is_digit (drop 3 tok) \<and> length yr = 4 \<and> list_all is_digit yr
      | _ \<Rightarrow> False)"

section \<open>Counting failed attempts\<close>

text \<open>
  For stating the retry policy: the number of \<open>ClientError\<close> answers the backend gives in a
  row to the first \<open>n\<close> attempts of \<open>call\<close> made from world \<open>w\<close>.
\<close>

definition failed_attempts :: "world \<Rightarrow> s3_call \<Rightarrow> nat \<Rightarrow> nat" where
  "failed_attempts w call n =
     length (takeWhile (\<lambda>i. s3_backend w (length (s3_calls w) + i) call = S3ClientError) [0..<n])"

section \<open>Example inputs\<close>

text \<open>
  A clock reading, a world in which one image file exists and the backend fails a given
  number of times before it succeeds, an event, a service with given pending events, and
  a stand-in for \<open>json.dumps\<close> that writes the keys of an event.
\<close>

definition example_now :: datetime where
  "example_now = \<lparr>dt_year = 2026, dt_month = 11, dt_day = 3,
                    dt_hour = 22, dt_minute = 57, dt_second = 0\<rparr>"

definition example_world :: "nat \<Rightarrow> world" where
  "example_world failures =
     \<lparr>file_exists = (\<lambda>p. p = ''/tmp/img.jpg''),
      exists_nonstr = (\<lambda>v. Inl TypeError),
      s3_backend = (\<lambda>n call. if n < failures then S3ClientError else S3Ok),
      s3_calls = [],
      sleeps = []\<rparr>"

definition example_event :: event where
  "example_event =
     [(''timestamp'', PStr ''Aug27_2025_06h47m10s_276''), (''image'', PStr ''/tmp/img.jpg'')]"

definition example_service :: "event list \<Rightarrow> service" where
  "example_service evs =
     \<lparr>event_buffer = \<lparr>events = evs, flush_interval = 60, last_flush = 100, lock = False\<rparr>,
      events_received = 0, images_uploaded = 0, images_failed = 0,
      batches_uploaded = 0, batches_failed = 0\<rparr>"

definition example_dumps :: "event \<Rightarrow> string" where
  "example_dumps event = concat (map (\<lambda>(key, v). key @ '';'') event)"

section \<open>Library functions: basic facts\<close>

lemma py_startswith_prefix: "py_startswith s p \<longleftrightarrow> prefix p s"
  by (induction s p rule: py_startswith.induct) auto

text \<open>\<open>py_in\<close> decides whether \<open>sub\<close> occurs in \<open>s\<close> as a contiguous block.\<close>

lemma py_in_sublist: "py_in sub s \<longleftrightarrow> sublist sub s"
  by (induction s) (auto simp: py_startswith_prefix sublist_Cons_right)

lemma split_scan_not_Nil: "split_scan sep cur s \<noteq> []"
  by (induction s arbitrary: cur) auto

lemma py_split_not_Nil: "py_split sep s \<noteq> []"
  by (simp add: py_split_def split_scan_not_Nil)

lemma str_nat_digit: "n < 10 \<Longrightarrow> str_nat n = [digit_char n]"
  by (simp add: str_nat.simps)

lemma str_nat_step: "10 \<le> n \<Longrightarrow> str_nat n = str_nat (n div 10) @ [digit_char (n mod 10)]"
  by (subst str_nat.simps) simp

lemma py_join_newline:
  "ls \<noteq> [] \<Longrightarrow> py_join sep ls @ sep = concat (map (\<lambda>l. l @ sep) ls)"
  by (induction sep ls rule: py_join.induct) auto

section \<open>Properties of _get_s3_paths\<close>

text \<open>With a string as file name the method always returns, and the key has the date path inside.\<close>

lemma get_s3_paths_str_filename:
  "\<exists>snapshot_key date_path.
     get_s3_paths now timestamp (PStr fn) = Inr (snapshot_key, date_path) \<and>
     snapshot_key = ''snapshots/'' @ date_path @ ''/'' @ basename fn"
proof (cases "get_s3_paths_try now timestamp (PStr fn)")
  case (Inl e)
  then show ?thesis
    by (simp add: get_s3_paths_def os_path_basename_def)
next
  case (Inr r)
  then obtain k d where r: "r = (k, d)" by (cases r)
  from Inr have "k = ''snapshots/'' @ d @ ''/'' @ basename fn"
    unfolding r get_s3_paths_try_def os_path_basename_def Let_def
    by (auto split: pyval.splits sum.splits if_splits prod.splits)
  with Inr r show ?thesis
    by (simp add: get_s3_paths_def)
qed

lemma get_s3_paths_handler:
  "get_s3_paths_try now timestamp (PStr fn) = Inl e \<Longrightarrow>
   get_s3_paths now timestamp (PStr fn) =
     Inr (''snapshots/'' @ str_nat (dt_year now) @ ''/'' @ fmt_02d (dt_month now) @ ''/'' @
            fmt_02d (dt_day now) @ ''/'' @ basename fn,
          str_nat (dt_year now) @ ''/'' @ fmt_02d (dt_month now) @ ''/'' @ fmt_02d (dt_day now))"
  by (simp add: get_s3_paths_def os_path_basename_def)

text \<open>
  C1. The claim: every timestamp whose first token is a month abbreviation followed by day
  digits and whose second token is a four-digit year gets its prefix from those tokens.
  The method tests for the literal text \<open>Aug27_2025\<close> instead, so the claim's own example
  \<open>Sep03_2025_10h00m00s_000\<close> takes the branch that reads the clock: whatever the clock
  says is the prefix, and on 3 November 2026 it is \<open>2026/11/03\<close>, not \<open>2025/09/03\<close>.
\<close>

theorem get_s3_paths_Sep03_reads_clock:
  "get_s3_paths now (PStr ''Sep03_2025_10h00m00s_000'') (PStr fn) =
     Inr (''snapshots/'' @ str_nat (dt_year now) @ ''/'' @ fmt_02d (dt_month now) @ ''/'' @
            fmt_02d (dt_day now) @ ''/'' @ basename fn,
          str_nat (dt_year now) @ ''/'' @ fmt_02d (dt_month now) @ ''/'' @ fmt_02d (dt_day now))
   \<and> get_s3_paths \<lparr>dt_year = 2026, dt_month = 11, dt_day = 3,
                    dt_hour = 22, dt_minute = 57, dt_second = 0\<rparr>
        (PStr ''Sep03_2025_10h00m00s_000'') (PStr ''img.jpg'') =
     Inr (''snapshots/2026/11/03/img.jpg'', ''2026/11/03'')"
  by (simp add: get_s3_paths_def get_s3_paths_try_def py_split_def os_path_basename_def
      index0_def basename_def fmt_02d_def str_nat_digit str_nat_step digit_char_def)

text \<open>
  A timestamp string in which the text \<open>Aug27_2025\<close> does not occur is ignored: the date
  path is the current date, whether the method reaches its \<open>else\<close> branch or its
  exception handler. The ISO timestamp \<open>2025-08-27T06:47:10Z\<close> is such a string.
\<close>

lemma get_s3_paths_fallback:
  assumes "\<not> py_in ''Aug27_2025'' ts"
  shows "get_s3_paths now (PStr ts) (PStr fn) =
     Inr (''snapshots/'' @ str_nat (dt_year now) @ ''/'' @ fmt_02d (dt_month now) @ ''/'' @
            fmt_02d (dt_day now) @ ''/'' @ basename fn,
          str_nat (dt_year now) @ ''/'' @ fmt_02d (dt_month now) @ ''/'' @ fmt_02d (dt_day now))"
proof (cases "index0 (take 2 (drop 1 (py_split CHR ''_'' ts)))")
  case (Inl e)
  then show ?thesis using assms
    by (simp add: get_s3_paths_def get_s3_paths_try_def os_path_basename_def)
next
  case (Inr y)
  then show ?thesis using assms
    by (simp add: get_s3_paths_def get_s3_paths_try_def os_path_basename_def)
qed

lemma get_s3_paths_fallback_iso:
  "\<not> py_in ''Aug27_2025'' ''2025-08-27T06:47:10Z'' \<and>
   get_s3_paths \<lparr>dt_year = 2026, dt_month = 11, dt_day = 3,
                  dt_hour = 22, dt_minute = 57, dt_second = 0\<rparr>
     (PStr ''2025-08-27T06:47:10Z'') (PStr ''/tmp/img.jpg'') =
     Inr (''snapshots/2026/11/03/img.jpg'', ''2026/11/03'')"
proof -
  have h: "\<not> py_in ''Aug27_2025'' ''2025-08-27T06:47:10Z''" by simp
  show ?thesis
    using h get_s3_paths_fallback [OF h, of "\<lparr>dt_year = 2026, dt_month = 11, dt_day = 3,
        dt_hour = 22, dt_minute = 57, dt_second = 0\<rparr>" "''/tmp/img.jpg''"]
    by (simp add: basename_def fmt_02d_def str_nat_digit str_nat_step digit_char_def)
qed

text \<open>The session format on the timestamps that appear below.\<close>

lemma session_format_examples:
  "session_format ''Aug27_2025_06h47m10s_276''"
  "session_format ''Sep03_2025_10h00m00s_000''"
  "\<not> session_format ''2025-08-27T06:47:10Z''"
  "\<not> session_format ''xAug27_2025''"
  by (simp_all add: session_format_def py_split_def month_map_def is_digit_def)

text \<open>
  C5. The claim: every timestamp string that does not have the session format is ignored
  and the date path is the current date. The method tests whether the text
  \<open>Aug27_2025\<close> occurs anywhere in the string instead, so \<open>xAug27_2025\<close>, which does not
  have the session format, is parsed: its date path is \<open>2025/01/g27\<close> whatever the clock
  says, where the current date would be \<open>2026/11/03\<close> on 3 November 2026.
\<close>

theorem get_s3_paths_xAug27_is_parsed:
  "\<not> session_format ''xAug27_2025'' \<and>
   get_s3_paths now (PStr ''xAug27_2025'') (PStr fn) =
     Inr (''snapshots/2025/01/g27/'' @ basename fn, ''2025/01/g27'') \<and>
   str_nat (dt_year example_now) @ ''/'' @ fmt_02d (dt_month example_now) @ ''/'' @
     fmt_02d (dt_day example_now) = ''2026/11/03''"
  by (simp add: session_format_def get_s3_paths_def get_s3_paths_try_def py_split_def
      index0_def month_map_def os_path_basename_def example_now_def fmt_02d_def
      str_nat_digit str_nat_step digit_char_def)

text \<open>
  C6. The timestamp \<open>Aug27_2025_06h47m10s_276\<close> with file name \<open>img.jpg\<close> gives the date
  path \<open>2025/08/27\<close> and the key \<open>snapshots/2025/08/27/img.jpg\<close>, whatever the clock says.
\<close>

theorem get_s3_paths_Aug27:
  "get_s3_paths now (PStr ''Aug27_2025_06h47m10s_276'') (PStr ''img.jpg'') =
     Inr (''snapshots/2025/08/27/img.jpg'', ''2025/08/27'')"
  by (simp add: get_s3_paths_def get_s3_paths_try_def py_split_def index0_def month_map_def
      os_path_basename_def basename_def)

text \<open>
  C10. On every timestamp string and every file name string the method returns a pair,
  the key is \<open>snapshots/\<close>, the date path, a slash and the base name of the file, and
  when the \<open>try\<close> block raises, the date path is the current date.
\<close>

theorem get_s3_paths_total:
  "\<exists>snapshot_key date_path.
     get_s3_paths now (PStr ts) (PStr fn) = Inr (snapshot_key, date_path) \<and>
     snapshot_key = ''snapshots/'' @ date_path @ ''/'' @ basename fn \<and>
     ((\<exists>e. get_s3_paths_try now (PStr ts) (PStr fn) = Inl e) \<longrightarrow>
        date_path = str_nat (dt_year now) @ ''/'' @ fmt_02d (dt_month now) @ ''/'' @
                    fmt_02d (dt_day now))"
proof -
  obtain k d where kd: "get_s3_paths now (PStr ts) (PStr fn) = Inr (k, d)"
      "k = ''snapshots/'' @ d @ ''/'' @ basename fn"
    using get_s3_paths_str_filename by blast
  then show ?thesis
    using get_s3_paths_handler [of now "PStr ts" fn] by auto
qed

theorem get_s3_paths_total_witness:
  "(\<exists>e. get_s3_paths_try \<lparr>dt_year = 2026, dt_month = 11, dt_day = 3,
                  dt_hour = 22, dt_minute = 57, dt_second = 0\<rparr> (PStr []) (PStr []) = Inl e) \<and>
   get_s3_paths \<lparr>dt_year = 2026, dt_month = 11, dt_day = 3,
                  dt_hour = 22, dt_minute = 57, dt_second = 0\<rparr> (PStr []) (PStr []) =
     Inr (''snapshots/2026/11/03/'', ''2026/11/03'')"
proof -
  let ?now = "\<lparr>dt_year = 2026, dt_month = 11, dt_day = 3,
                  dt_hour = 22, dt_minute = 57, dt_second = 0\<rparr>"
  have h: "get_s3_paths_try ?now (PStr []) (PStr []) = Inl IndexError"
    by (simp add: get_s3_paths_try_def py_split_def index0_def)
  from get_s3_paths_total [of ?now "[]" "[]"] h show ?thesis
    by (auto simp: basename_def fmt_02d_def str_nat_digit str_nat_step digit_char_def)
qed

section \<open>Properties of S3Manager\<close>

text \<open>
  Three attempts, unfolded: the loop stops at the first answer that is not \<open>ClientError\<close>,
  has slept after each failed attempt but the third, and has made one call per attempt.
\<close>

lemma upt_0_3: "[0..<3] = [0, 1, 2]"
  by (simp add: upt_rec)

lemma attempt_loop_3:
  "attempt_loop call 3 [0..<3] w =
     (let k = failed_attempts w call 3 in
      (if k = 3 then Inr False
       else if s3_backend w (length (s3_calls w) + k) call = S3Ok then Inr True
       else Inl OtherException,
       w\<lparr>s3_calls := s3_calls w @ replicate (min (k + 1) 3) call,
         sleeps := sleeps w @ map (\<lambda>attempt. 2 ^ attempt) [0..<min k 2]\<rparr>))"
proof -
  let ?n = "length (s3_calls w)"
  show ?thesis
  proof (cases "s3_backend w ?n call")
    case S3Ok
    then show ?thesis by (simp add: upt_0_3 failed_attempts_def)
  next
    case S3OtherError
    then show ?thesis by (simp add: upt_0_3 failed_attempts_def)
  next
    case r0: S3ClientError
    show ?thesis
    proof (cases "s3_backend w (Suc ?n) call")
      case S3Ok
      with r0 show ?thesis by (simp add: upt_0_3 failed_attempts_def)
    next
      case S3OtherError
      with r0 show ?thesis by (simp add: upt_0_3 failed_attempts_def)
    next
      case r1: S3ClientError
      show ?thesis
      proof (cases "s3_backend w (Suc (Suc ?n)) call")
        case S3Ok
        with r0 r1 show ?thesis by (simp add: upt_0_3 failed_attempts_def numeral_2_eq_2 numeral_3_eq_3)
      next
        case S3OtherError
        with r0 r1 show ?thesis by (simp add: upt_0_3 failed_attempts_def numeral_2_eq_2 numeral_3_eq_3)
      next
        case S3ClientError
        with r0 r1 show ?thesis by (simp add: upt_0_3 failed_attempts_def numeral_2_eq_2 numeral_3_eq_3)
      qed
    qed
  qed
qed


text \<open>
  C7. When the local path does not exist, \<open>upload_image\<close> returns false and leaves the
  world as it was: no backend call is recorded and nothing is added to the sleeps.
\<close>

theorem upload_image_missing_file:
  assumes "os_path_exists w local_path = Inr False"
  shows "upload_image w local_path s3_key retries = (Inr False, w)"
  using assms by (simp add: upload_image_def)

theorem upload_image_missing_file_witness:
  "os_path_exists \<lparr>file_exists = (\<lambda>p. False), exists_nonstr = (\<lambda>v. Inl TypeError),
       s3_backend = (\<lambda>n c. S3Ok), s3_calls = [], sleeps = []\<rparr> (PStr ''/tmp/gone.jpg'') = Inr False \<and>
   upload_image \<lparr>file_exists = (\<lambda>p. False), exists_nonstr = (\<lambda>v. Inl TypeError),
       s3_backend = (\<lambda>n c. S3Ok), s3_calls = [], sleeps = []\<rparr> (PStr ''/tmp/gone.jpg'') ''snapshots/2025/08/27/gone.jpg'' 3 =
     (Inr False, \<lparr>file_exists = (\<lambda>p. False), exists_nonstr = (\<lambda>v. Inl TypeError),
       s3_backend = (\<lambda>n c. S3Ok), s3_calls = [], sleeps = []\<rparr>)"
proof -
  let ?w = "\<lparr>file_exists = (\<lambda>p. False), exists_nonstr = (\<lambda>v. Inl TypeError),
       s3_backend = (\<lambda>n c. S3Ok), s3_calls = [], sleeps = []\<rparr>"
  have h: "os_path_exists ?w (PStr ''/tmp/gone.jpg'') = Inr False"
    by (simp add: os_path_exists_def)
  from h upload_image_missing_file [OF h] show ?thesis by simp
qed

text \<open>
  C2. Both upload methods, called with the default of three retries on a backend whose
  failures are \<open>ClientError\<close>s (and, for \<open>upload_image\<close>, on a file that exists): with
  \<open>k\<close> the number of failed attempts before the first success, at most three, the
  method makes \<open>min (k + 1) 3\<close> calls, so it stops at the first success and never makes a
  fourth attempt; it sleeps \<open>2 ^ attempt\<close> seconds after each failed attempt except the
  third, so only between attempts; and it returns true when \<open>k < 3\<close> and false when all
  three attempts failed.
\<close>

theorem upload_retry_policy:
  assumes "\<forall>i<3. s3_backend w (length (s3_calls w) + i) call \<noteq> S3OtherError"
    and "k = failed_attempts w call 3"
    and "w' = w\<lparr>s3_calls := s3_calls w @ replicate (min (k + 1) 3) call,
                 sleeps := sleeps w @ map (\<lambda>attempt. 2 ^ attempt) [0..<min k 2]\<rparr>"
  shows "(call = PutObject s3_key jsonl_content \<longrightarrow>
            upload_jsonl w jsonl_content s3_key 3 = (Inr (k < 3), w')) \<and>
         (call = UploadFile local_path s3_key \<and> os_path_exists w local_path = Inr True \<longrightarrow>
            upload_image w local_path s3_key 3 = (Inr (k < 3), w')) \<and>
         k \<le> 3 \<and> (k < 3 \<longrightarrow> s3_backend w (length (s3_calls w) + k) call = S3Ok)"
proof -
  have k3: "k \<le> 3"
    unfolding assms(2) failed_attempts_def
    using length_takeWhile_le [of _ "[0..<3]"] by (metis diff_zero length_upt)
  have nth: "k < 3 \<Longrightarrow> s3_backend w (length (s3_calls w) + k) call \<noteq> S3ClientError"
    unfolding assms(2) failed_attempts_def
    using nth_length_takeWhile [of "\<lambda>i. s3_backend w (length (s3_calls w) + i) call = S3ClientError" "[0..<3]"]
    by simp
  have ok: "k < 3 \<Longrightarrow> s3_backend w (length (s3_calls w) + k) call = S3Ok"
    using nth assms(1) by (metis s3_result.exhaust)
  have loop: "attempt_loop call 3 [0..<3] w = (Inr (k < 3), w')"
    using k3 ok by (auto simp: attempt_loop_3 Let_def assms(2)[symmetric] assms(3))
  show ?thesis
    using loop k3 ok by (auto simp: upload_jsonl_def upload_image_def)
qed


theorem upload_retry_policy_witness:
  "s3_backend (example_world 2) 0 (PutObject ''logs/k'' ''{}'') = S3ClientError \<and>
   s3_backend (example_world 2) 1 (PutObject ''logs/k'' ''{}'') = S3ClientError \<and>
   s3_backend (example_world 2) 2 (PutObject ''logs/k'' ''{}'') = S3Ok \<and>
   upload_jsonl (example_world 2) ''{}'' ''logs/k'' 3 =
     (Inr True,
      (example_world 2)
        \<lparr>s3_calls := [PutObject ''logs/k'' ''{}'', PutObject ''logs/k'' ''{}'',
                     PutObject ''logs/k'' ''{}''],
          sleeps := [1, 2]\<rparr>) \<and>
   os_path_exists (example_world 2) (PStr ''/tmp/img.jpg'') = Inr True \<and>
   upload_image (example_world 2) (PStr ''/tmp/img.jpg'') ''snapshots/k'' 3 =
     (Inr True,
      (example_world 2)
        \<lparr>s3_calls := [UploadFile (PStr ''/tmp/img.jpg'') ''snapshots/k'',
                     UploadFile (PStr ''/tmp/img.jpg'') ''snapshots/k'',
                     UploadFile (PStr ''/tmp/img.jpg'') ''snapshots/k''],
          sleeps := [1, 2]\<rparr>)"
proof -
  let ?w = "example_world 2"
  have h: "\<forall>i<3. s3_backend ?w (length (s3_calls ?w) + i) c \<noteq> S3OtherError" for c
    by (simp add: example_world_def)
  have k: "failed_attempts ?w c 3 = 2" for c
    by (simp add: failed_attempts_def upt_0_3 example_world_def)
  have e: "os_path_exists ?w (PStr ''/tmp/img.jpg'') = Inr True"
    by (simp add: os_path_exists_def example_world_def)
  have two: "[0..<2] = [0, 1]"
    by (simp add: upt_rec)
  have three: "replicate 3 x = [x, x, x]" for x :: s3_call
    by (simp add: numeral_3_eq_3)
  have calls: "s3_calls ?w = []" "sleeps ?w = []"
    by (simp_all add: example_world_def)
  have answers: "s3_backend ?w 0 c = S3ClientError" "s3_backend ?w 1 c = S3ClientError"
      "s3_backend ?w 2 c = S3Ok" for c
    by (simp_all add: example_world_def)
  show ?thesis
    using e answers
      upload_retry_policy [OF h refl refl, of "PutObject ''logs/k'' ''{}''" "''logs/k''" "''{}''"]
      upload_retry_policy [OF h refl refl, of "UploadFile (PStr ''/tmp/img.jpg'') ''snapshots/k''"
         _ _ "PStr ''/tmp/img.jpg''"]
    by (simp add: k two three calls)
qed

section \<open>Properties of EventBuffer\<close>

lemma add_event_unlocked:
  "\<not> lock b \<Longrightarrow> add_event e b = Some ((), b\<lparr>events := events b @ [e]\<rparr>)"
  by (cases b) (simp add: add_event_def with_lock_def)

lemma add_events_unlocked:
  "\<not> lock b \<Longrightarrow> add_events es b = Some (b\<lparr>events := events b @ es\<rparr>)"
proof (induction es arbitrary: b)
  case Nil
  then show ?case by simp
next
  case (Cons e es)
  then show ?case by (simp add: add_event_unlocked)
qed

lemma get_and_clear_events_unlocked:
  "\<not> lock b \<Longrightarrow>
   get_and_clear_events now b = Some (events b, b\<lparr>events := [], last_flush := now\<rparr>)"
  by (cases b) (simp add: get_and_clear_events_def with_lock_def)

lemma get_and_clear_events_blocked:
  "(get_and_clear_events now b = None) = lock b"
  by (simp add: get_and_clear_events_def with_lock_def split: prod.splits)

lemma add_event_blocked:
  "(add_event e b = None) = lock b"
  by (simp add: add_event_def with_lock_def)

lemma get_count_unlocked:
  "\<not> lock b \<Longrightarrow> get_count b = Some (length (events b), b)"
  by (cases b) (simp add: get_count_def with_lock_def)

text \<open>
  The invariant of every execution in which thread \<open>d\<close> drains and the other threads add:
  it holds initially, every step keeps it, so every schedule keeps it.
\<close>

lemma adder_rest_adds: "adder_rest False (concat (map add_event_body es))"
  by (induction es) (simp_all add: add_event_body_def)

lemma drain_inv_initial:
  "\<not> lock b \<Longrightarrow> drain_inv (events b) d now (initial b d now adds)"
  by (simp add: drain_inv_def excl_def drain_phase_def initial_def get_and_clear_events_body_def
      adder_rest_adds)

lemma exec_holds:
  "exec ins b t = Some (b', t') \<Longrightarrow> ins \<noteq> Acquire \<Longrightarrow> ins \<noteq> Release \<Longrightarrow>
   holds t' = holds t \<and> lock b' = lock b"
  by (cases ins) auto

lemma excl_step:
  assumes "excl s" and "prog (threads s i) = ins # rest"
    and "exec ins (buf s) (threads s i) = Some (b', t')"
    and "ins = Release \<longrightarrow> holds (threads s i)"
  shows "excl \<lparr>buf = b', threads = (threads s)(i := t'\<lparr>prog := rest\<rparr>),
                appended = appended s @ appended_by ins\<rparr>"
proof (cases "ins = Acquire")
  case True
  with assms(3) have free: "\<not> lock (buf s)" and b': "lock b'" and t': "holds t'"
    by (auto split: if_splits)
  from free assms(1) have none: "\<And>j. \<not> holds (threads s j)"
    by (auto simp: excl_def)
  show ?thesis
    unfolding excl_def using b' t' none by (auto split: if_splits)
next
  case notA: False
  show ?thesis
  proof (cases "ins = Release")
    case True
    with assms(4) have h: "holds (threads s i)" by simp
    from True assms(3) have b': "\<not> lock b'" and t': "\<not> holds t'"
      by auto
    from h assms(1) have only: "\<And>j. holds (threads s j) \<Longrightarrow> j = i"
      by (auto simp: excl_def)
    show ?thesis
      unfolding excl_def using b' t' only by (auto split: if_splits)
  next
    case False
    from exec_holds [OF assms(3) notA False]
    have same: "holds t' = holds (threads s i)" "lock b' = lock (buf s)" by simp_all
    have "holds (((threads s)(i := t'\<lparr>prog := rest\<rparr>)) j) = holds (threads s j)" for j
      using same by simp
    then show ?thesis
      using assms(1) same unfolding excl_def by simp
  qed
qed


lemma adder_rest_exec:
  assumes "adder_rest (holds t) (ins # rest)" and "exec ins b t = Some (b', t')"
  shows "adder_rest (holds t') rest" and "ins \<noteq> Acquire \<Longrightarrow> holds t"
    and "ins = Acquire \<or> ins = Release \<or> (\<exists>event. ins = Append event)"
  using assms by (cases ins; auto split: if_splits)+

lemma phase_step_drainer:
  assumes "drain_phase ev0 d now s" and "prog (threads s d) = ins # rest"
    and "exec ins (buf s) (threads s d) = Some (b', t')"
  shows "drain_phase ev0 d now
           \<lparr>buf = b', threads = (threads s)(d := t'\<lparr>prog := rest\<rparr>),
             appended = appended s @ appended_by ins\<rparr>"
proof -
  let ?D = "threads s d"
  let ?seen = "ev0 @ appended s"
  consider
      (p0) "prog ?D = [Acquire, Copy, Clear, Stamp now, Release]" "\<not> holds ?D"
           "events (buf s) = ?seen"
    | (p1) "prog ?D = [Copy, Clear, Stamp now, Release]" "holds ?D" "events (buf s) = ?seen"
    | (p2) "prog ?D = [Clear, Stamp now, Release]" "holds ?D" "events (buf s) = ?seen"
           "local_events ?D = ?seen"
    | (p3) "prog ?D = [Stamp now, Release]" "holds ?D" "events (buf s) = []"
           "local_events ?D = ?seen"
    | (p4) "prog ?D = [Release]" "holds ?D" "events (buf s) = []" "local_events ?D = ?seen"
           "last_flush (buf s) = now"
    | (p5) "prog ?D = []"
    using assms(1) unfolding drain_phase_def Let_def by blast
  then show ?thesis
  proof cases
    case p0
    with assms(2,3) show ?thesis
      by (auto simp: drain_phase_def split: if_splits)
  next
    case p1
    with assms(2,3) show ?thesis
      by (auto simp: drain_phase_def)
  next
    case p2
    with assms(2,3) show ?thesis
      by (auto simp: drain_phase_def)
  next
    case p3
    with assms(2,3) show ?thesis
      by (auto simp: drain_phase_def)
  next
    case p4
    with assms(2,3) show ?thesis
      by (auto simp: drain_phase_def)
  next
    case p5
    with assms(2) show ?thesis by simp
  qed
qed

lemma phase_step_other:
  assumes ph: "drain_phase ev0 d now s" and ex: "excl s" and "i \<noteq> d"
    and ar: "adder_rest (holds (threads s i)) (ins # rest)"
    and e: "exec ins (buf s) (threads s i) = Some (b', t')"
  shows "drain_phase ev0 d now
           \<lparr>buf = b', threads = (threads s)(i := t'\<lparr>prog := rest\<rparr>),
             appended = appended s @ appended_by ins\<rparr>"
proof -
  from adder_rest_exec(3) [OF ar e]
  consider (acq) "ins = Acquire" | (rel) "ins = Release" | (app) event where "ins = Append event"
    by blast
  then show ?thesis
  proof cases
    case acq
    with e have "events b' = events (buf s)" "last_flush b' = last_flush (buf s)"
      by (auto split: if_splits)
    with ph acq \<open>i \<noteq> d\<close> show ?thesis
      by (simp add: drain_phase_def)
  next
    case rel
    with e have "events b' = events (buf s)" "last_flush b' = last_flush (buf s)"
      by auto
    with ph rel \<open>i \<noteq> d\<close> show ?thesis
      by (simp add: drain_phase_def)
  next
    case app
    with adder_rest_exec(2) [OF ar e] have "holds (threads s i)" by simp
    with ex \<open>i \<noteq> d\<close> have nh: "\<not> holds (threads s d)"
      by (auto simp: excl_def)
    from app e have b': "events b' = events (buf s) @ [event]"
        "last_flush b' = last_flush (buf s)"
      by auto
    from ph nh have "prog (threads s d) = [Acquire, Copy, Clear, Stamp now, Release] \<and>
          events (buf s) = ev0 @ appended s
        \<or> prog (threads s d) = [] \<and>
          local_events (threads s d) @ events (buf s) = ev0 @ appended s \<and>
          last_flush (buf s) = now"
      unfolding drain_phase_def Let_def by blast
    with nh b' app \<open>i \<noteq> d\<close> show ?thesis
      by (auto simp: drain_phase_def)
  qed
qed


lemma phase_release_holds:
  "drain_phase ev0 d now s \<Longrightarrow> prog (threads s d) = Release # rest \<Longrightarrow> holds (threads s d)"
  unfolding drain_phase_def Let_def by auto

lemma drain_inv_step:
  assumes inv: "drain_inv ev0 d now s" and step: "step_thread i s = Some s'"
  shows "drain_inv ev0 d now s'"
proof -
  obtain ins rest where p: "prog (threads s i) = ins # rest"
    using step by (auto simp: step_thread_def split: list.splits)
  obtain b' t' where e: "exec ins (buf s) (threads s i) = Some (b', t')"
    and s': "s' = \<lparr>buf = b', threads = (threads s)(i := t'\<lparr>prog := rest\<rparr>),
                   appended = appended s @ appended_by ins\<rparr>"
    using step p by (auto simp: step_thread_def split: option.splits)
  from inv have ex: "excl s"
    and ad: "\<And>j. j \<noteq> d \<Longrightarrow> adder_rest (holds (threads s j)) (prog (threads s j))"
    and ph: "drain_phase ev0 d now s"
    by (simp_all add: drain_inv_def)
  show ?thesis
  proof (cases "i = d")
    case True
    have "ins = Release \<longrightarrow> holds (threads s i)"
      using phase_release_holds [OF ph] p True by auto
    from excl_step [OF ex p e this] have 1: "excl s'" by (simp add: s')
    have 2: "adder_rest (holds (threads s' j)) (prog (threads s' j))" if "j \<noteq> d" for j
      using ad [OF that] that True by (simp add: s')
    have 3: "drain_phase ev0 d now s'"
      using phase_step_drainer [OF ph] p e True by (simp add: s')
    from 1 2 3 show ?thesis by (simp add: drain_inv_def)
  next
    case False
    from ad [OF False] p have ar: "adder_rest (holds (threads s i)) (ins # rest)" by simp
    have "ins = Release \<longrightarrow> holds (threads s i)"
      using adder_rest_exec(2) [OF ar e] by simp
    from excl_step [OF ex p e this] have 1: "excl s'" by (simp add: s')
    have 2: "adder_rest (holds (threads s' j)) (prog (threads s' j))" if "j \<noteq> d" for j
      using ad [OF that] adder_rest_exec(1) [OF ar e] by (simp add: s')
    have 3: "drain_phase ev0 d now s'"
      using phase_step_other [OF ph ex False ar e] by (simp add: s')
    from 1 2 3 show ?thesis by (simp add: drain_inv_def)
  qed
qed

lemma drain_inv_run:
  "drain_inv ev0 d now s \<Longrightarrow> run_schedule sched s = Some s' \<Longrightarrow> drain_inv ev0 d now s'"
proof (induction sched arbitrary: s)
  case Nil
  then show ?case by simp
next
  case (Cons i sched)
  from Cons.prems(2) obtain s1 where s1: "step_thread i s = Some s1"
      and r: "run_schedule sched s1 = Some s'"
    by (auto split: option.splits)
  from drain_inv_step [OF Cons.prems(1) s1] r show ?case
    by (rule Cons.IH)
qed

text \<open>While the draining thread is inside its with-block, no other thread can take a step.\<close>

lemma others_blocked:
  assumes inv: "drain_inv ev0 d now s" and h: "holds (threads s d)" and "i \<noteq> d"
  shows "step_thread i s = None"
proof (cases "prog (threads s i)")
  case Nil
  then show ?thesis by (simp add: step_thread_def)
next
  case (Cons ins rest)
  from inv h have l: "lock (buf s)" and nh: "\<not> holds (threads s i)"
    using \<open>i \<noteq> d\<close> by (auto simp: drain_inv_def excl_def)
  from inv \<open>i \<noteq> d\<close> Cons nh have "adder_rest False (ins # rest)"
    by (auto simp: drain_inv_def)
  then have "ins = Acquire" by (cases ins) auto
  with l Cons show ?thesis by (simp add: step_thread_def)
qed

lemma drain_phase_facts:
  assumes "drain_phase ev0 d now s"
  shows "holds (threads s d) =
           (prog (threads s d) \<noteq> [] \<and> prog (threads s d) \<noteq> get_and_clear_events_body now)"
    and "prog (threads s d) = [Release] \<Longrightarrow>
           local_events (threads s d) = ev0 @ appended s \<and> events (buf s) = [] \<and>
           last_flush (buf s) = now"
    and "prog (threads s d) = [] \<Longrightarrow>
           local_events (threads s d) @ events (buf s) = ev0 @ appended s \<and>
           last_flush (buf s) = now"
  using assms unfolding drain_phase_def Let_def get_and_clear_events_body_def by auto

lemma drain_alone:
  "\<not> lock b \<Longrightarrow>
   run_schedule [d, d, d, d, d] (initial b d now adds) =
     Some \<lparr>buf = b\<lparr>events := [], last_flush := now\<rparr>,
           threads = (threads (initial b d now adds))
             (d := \<lparr>prog = [], holds = False, local_events = events b\<rparr>),
           appended = []\<rparr>"
  by (cases b) (simp add: initial_def step_thread_def get_and_clear_events_body_def)


lemma add_alone:
  "\<not> lock b \<Longrightarrow>
   \<exists>s. run_schedule [Suc d, Suc d, Suc d] (initial b d now (\<lambda>i. [e])) = Some s \<and>
       add_event e b = Some ((), buf s)"
  by (cases b) (simp add: initial_def step_thread_def add_event_body_def add_event_def
      with_lock_def)

text \<open>
  C3. On a buffer whose lock is free, adding the events \<open>es\<close> one after the other and then
  calling \<open>get_and_clear_events\<close> returns the events that were pending followed by \<open>es\<close>,
  in order (exactly \<open>es\<close> on a buffer that was empty, as after construction or a
  drain); afterwards the buffer is empty, \<open>get_count\<close> returns 0, \<open>last_flush\<close> is the
  clock reading of the drain and the lock is free again. The two methods are their
  statements run without interruption, and neither proceeds while the lock is held.

  Under every schedule of a draining thread \<open>d\<close> and any number of adding threads: \<open>d\<close> is
  inside its with-block exactly between its first and its last statement; while it is
  there the lock is held and no other thread can take a step, so the copy, the clearing
  and the reset of \<open>last_flush\<close> are not interleaved with any add; when \<open>d\<close> is about to
  release the lock, its copy is the pending events followed by all events appended so
  far, in the order they were appended, the buffer is empty and \<open>last_flush\<close> is the clock
  reading; and when \<open>d\<close> has returned, its copy followed by the buffer is all events
  appended so far, none lost and none twice.
\<close>

theorem drain_returns_added_events:
  assumes "\<not> lock b"
  shows "(\<exists>b1 b2.
            add_events es b = Some b1 \<and>
            get_and_clear_events now b1 = Some (events b @ es, b2) \<and>
            events b2 = [] \<and> get_count b2 = Some (0, b2) \<and> last_flush b2 = now \<and>
            \<not> lock b2 \<and> flush_interval b2 = flush_interval b \<and>
            (\<exists>s1. run_schedule [d, d, d, d, d] (initial b1 d now adds) = Some s1 \<and>
                  buf s1 = b2 \<and> local_events (threads s1 d) = events b @ es)) \<and>
         (\<exists>s2. run_schedule [Suc d, Suc d, Suc d] (initial b d now (\<lambda>i. [e])) = Some s2 \<and>
               add_event e b = Some ((), buf s2)) \<and>
         (get_and_clear_events now b' = None) = lock b' \<and>
         (add_event e b' = None) = lock b' \<and>
         (run_schedule sched (initial b d now adds) = Some s \<longrightarrow>
            holds (threads s d) =
              (prog (threads s d) \<noteq> [] \<and> prog (threads s d) \<noteq> get_and_clear_events_body now) \<and>
            (holds (threads s d) \<longrightarrow>
               lock (buf s) \<and> (\<forall>i. i \<noteq> d \<longrightarrow> step_thread i s = None)) \<and>
            (prog (threads s d) = [Release] \<longrightarrow>
               local_events (threads s d) = events b @ appended s \<and>
               events (buf s) = [] \<and> last_flush (buf s) = now) \<and>
            (prog (threads s d) = [] \<longrightarrow>
               local_events (threads s d) @ events (buf s) = events b @ appended s \<and>
               last_flush (buf s) = now))"
proof -
  let ?b1 = "b\<lparr>events := events b @ es\<rparr>"
  have u1: "\<not> lock ?b1" using assms by simp
  have seq: "\<exists>b1 b2.
            add_events es b = Some b1 \<and>
            get_and_clear_events now b1 = Some (events b @ es, b2) \<and>
            events b2 = [] \<and> get_count b2 = Some (0, b2) \<and> last_flush b2 = now \<and>
            \<not> lock b2 \<and> flush_interval b2 = flush_interval b \<and>
            (\<exists>s1. run_schedule [d, d, d, d, d] (initial b1 d now adds) = Some s1 \<and>
                  buf s1 = b2 \<and> local_events (threads s1 d) = events b @ es)"
    using assms drain_alone [OF u1, of d now adds]
    by (simp add: add_events_unlocked get_and_clear_events_unlocked get_count_unlocked)
  have conc: "holds (threads s d) =
              (prog (threads s d) \<noteq> [] \<and> prog (threads s d) \<noteq> get_and_clear_events_body now) \<and>
            (holds (threads s d) \<longrightarrow>
               lock (buf s) \<and> (\<forall>i. i \<noteq> d \<longrightarrow> step_thread i s = None)) \<and>
            (prog (threads s d) = [Release] \<longrightarrow>
               local_events (threads s d) = events b @ appended s \<and>
               events (buf s) = [] \<and> last_flush (buf s) = now) \<and>
            (prog (threads s d) = [] \<longrightarrow>
               local_events (threads s d) @ events (buf s) = events b @ appended s \<and>
               last_flush (buf s) = now)"
    if run: "run_schedule sched (initial b d now adds) = Some s"
  proof -
    have inv: "drain_inv (events b) d now s"
      using drain_inv_run [OF drain_inv_initial [OF assms] run] .
    then have ph: "drain_phase (events b) d now s" and ex: "excl s"
      by (simp_all add: drain_inv_def)
    have l: "holds (threads s d) \<Longrightarrow> lock (buf s)"
      using ex by (auto simp: excl_def)
    show ?thesis
      using drain_phase_facts [OF ph] others_blocked [OF inv] l by blast
  qed
  from seq add_alone [OF assms] conc show ?thesis
    by (simp only: get_and_clear_events_blocked add_event_blocked) blast
qed


theorem drain_returns_added_events_witness:
  "\<not> lock (EventBuffer_init 60 100) \<and>
   (\<exists>b1 b2. add_events [[(''timestamp'', PStr ''Aug27_2025_06h47m10s_276'')], [(''image'', PNone)]]
                (EventBuffer_init 60 100) = Some b1 \<and>
      get_and_clear_events 130 b1 =
        Some ([[(''timestamp'', PStr ''Aug27_2025_06h47m10s_276'')], [(''image'', PNone)]], b2) \<and>
      events b2 = [] \<and> get_count b2 = Some (0, b2) \<and> last_flush b2 = 130 \<and> \<not> lock b2) \<and>
   (\<exists>s. run_schedule [1, 1, 1, 0, 0, 0, 0]
          (initial (EventBuffer_init 60 100) 0 130
             (\<lambda>i. if i = 1 then [[(''image'', PNone)], [(''image'', PStr ''a.jpg'')]] else [])) =
          Some s \<and>
        prog (threads s 0) = [Release] \<and> holds (threads s 0) \<and> lock (buf s) \<and>
        step_thread 1 s = None \<and>
        local_events (threads s 0) = [[(''image'', PNone)]] \<and>
        events (buf s) = [] \<and> last_flush (buf s) = 130) \<and>
   (\<exists>s. run_schedule [1, 1, 1, 0, 0, 0, 0, 0, 1, 1, 1]
          (initial (EventBuffer_init 60 100) 0 130
             (\<lambda>i. if i = 1 then [[(''image'', PNone)], [(''image'', PStr ''a.jpg'')]] else [])) =
          Some s \<and>
        prog (threads s 0) = [] \<and>
        local_events (threads s 0) @ events (buf s) =
          [[(''image'', PNone)], [(''image'', PStr ''a.jpg'')]] \<and>
        last_flush (buf s) = 130)"
proof -
  let ?b = "EventBuffer_init 60 100"
  let ?adds = "\<lambda>i::nat. if i = 1 then [[(''image'', PNone)], [(''image'', PStr ''a.jpg'')]] else []"
  let ?es = "[[(''timestamp'', PStr ''Aug27_2025_06h47m10s_276'')], [(''image'', PNone)]]"
  have h: "\<not> lock ?b"
    by (simp add: EventBuffer_init_def)
  have e: "events ?b = []"
    by (simp add: EventBuffer_init_def)
  have r1: "\<exists>s. run_schedule [1, 1, 1, 0, 0, 0, 0] (initial ?b 0 130 ?adds) = Some s \<and>
      prog (threads s 0) = [Release] \<and> appended s = [[(''image'', PNone)]]"
    by (simp add: initial_def step_thread_def get_and_clear_events_body_def add_event_body_def
        EventBuffer_init_def)
  have r2: "\<exists>s. run_schedule [1, 1, 1, 0, 0, 0, 0, 0, 1, 1, 1] (initial ?b 0 130 ?adds) = Some s \<and>
      prog (threads s 0) = [] \<and>
      appended s = [[(''image'', PNone)], [(''image'', PStr ''a.jpg'')]]"
    by (simp add: initial_def step_thread_def get_and_clear_events_body_def add_event_body_def
        EventBuffer_init_def)
  from r1 obtain s1 where s1: "run_schedule [1, 1, 1, 0, 0, 0, 0] (initial ?b 0 130 ?adds) = Some s1"
      "prog (threads s1 0) = [Release]" "appended s1 = [[(''image'', PNone)]]"
    by blast
  from r2 obtain s2 where
      s2: "run_schedule [1, 1, 1, 0, 0, 0, 0, 0, 1, 1, 1] (initial ?b 0 130 ?adds) = Some s2"
      "prog (threads s2 0) = []"
      "appended s2 = [[(''image'', PNone)], [(''image'', PStr ''a.jpg'')]]"
    by blast
  have c1: "prog (threads s1 0) = [Release] \<and> holds (threads s1 0) \<and> lock (buf s1) \<and>
        step_thread 1 s1 = None \<and> local_events (threads s1 0) = [[(''image'', PNone)]] \<and>
        events (buf s1) = [] \<and> last_flush (buf s1) = 130"
    using drain_returns_added_events [OF h, where d = 0 and now = 130 and adds = ?adds
        and sched = "[1, 1, 1, 0, 0, 0, 0]" and s = s1] s1 e
    by (simp add: get_and_clear_events_body_def)
  have c2: "prog (threads s2 0) = [] \<and>
        local_events (threads s2 0) @ events (buf s2) =
          [[(''image'', PNone)], [(''image'', PStr ''a.jpg'')]] \<and>
        last_flush (buf s2) = 130"
    using drain_returns_added_events [OF h, where d = 0 and now = 130 and adds = ?adds
        and sched = "[1, 1, 1, 0, 0, 0, 0, 0, 1, 1, 1]" and s = s2] s2 e
    by simp
  have c0: "\<exists>b1 b2. add_events ?es ?b = Some b1 \<and>
      get_and_clear_events 130 b1 = Some (?es, b2) \<and>
      events b2 = [] \<and> get_count b2 = Some (0, b2) \<and> last_flush b2 = 130 \<and> \<not> lock b2"
    using drain_returns_added_events [OF h, where es = ?es and now = 130] e
    by (simp del: add_events.simps) blast
  from h c0 c1 s1(1) c2 s2(1) show ?thesis by blast
qed


text \<open>
  C8. With a positive flush interval, \<open>should_flush\<close> is false at the clock reading of
  the construction and at the clock reading of a drain; after construction, after a drain
  and after any adds without a drain it is true exactly when the clock reading is at
  least \<open>flush_interval\<close> past \<open>last_flush\<close>; and it returns the buffer unchanged.
\<close>

theorem should_flush_timing:
  assumes "0 < interval" and "flush_interval b = interval" and "\<not> lock b"
  shows "\<not> fst (should_flush t0 (EventBuffer_init interval t0)) \<and>
         fst (should_flush now (EventBuffer_init interval t0)) = (real_of_int interval \<le> now - t0) \<and>
         (\<exists>evs b'. get_and_clear_events t b = Some (evs, b') \<and>
                    \<not> fst (should_flush t b') \<and>
                    fst (should_flush now b') = (real_of_int interval \<le> now - t)) \<and>
         (\<exists>b'. add_events es b = Some b' \<and>
                fst (should_flush now b') = (real_of_int interval \<le> now - last_flush b) \<and>
                snd (should_flush now b') = b')"
  using assms
  by (simp add: should_flush_def EventBuffer_init_def add_events_unlocked
      get_and_clear_events_unlocked)


theorem should_flush_timing_witness:
  "(0::int) < 60 \<and> flush_interval (EventBuffer_init 60 100) = 60 \<and>
   \<not> lock (EventBuffer_init 60 100) \<and>
   \<not> fst (should_flush 100 (EventBuffer_init 60 100)) \<and>
   fst (should_flush 160 (EventBuffer_init 60 100)) \<and>
   (\<exists>evs b'. get_and_clear_events 130 (EventBuffer_init 60 100) = Some (evs, b') \<and>
              \<not> fst (should_flush 130 b') \<and> \<not> fst (should_flush 160 b')) \<and>
   (\<exists>b'. add_events [[(''image'', PNone)]] (EventBuffer_init 60 100) = Some b' \<and>
          fst (should_flush 160 b') \<and> snd (should_flush 160 b') = b')"
proof -
  have h: "(0::int) < 60" "flush_interval (EventBuffer_init 60 100) = 60"
      "\<not> lock (EventBuffer_init 60 100)"
    by (simp_all add: EventBuffer_init_def)
  have l: "last_flush (EventBuffer_init 60 100) = 100"
    by (simp add: EventBuffer_init_def)
  from should_flush_timing [OF h, of 100 160 130 "[[(''image'', PNone)]]"]
  show ?thesis using h l by auto
qed

section \<open>Properties of _process_event and _flush_event_buffer\<close>

lemma upload_jsonl_3:
  "upload_jsonl w jsonl_content s3_key 3 =
     (let call = PutObject s3_key jsonl_content; k = failed_attempts w call 3 in
      (if k = 3 then Inr False
       else if s3_backend w (length (s3_calls w) + k) call = S3Ok then Inr True
       else Inl OtherException,
       w\<lparr>s3_calls := s3_calls w @ replicate (min (k + 1) 3) call,
         sleeps := sleeps w @ map (\<lambda>attempt. 2 ^ attempt) [0..<min k 2]\<rparr>))"
  by (simp add: upload_jsonl_def attempt_loop_3 Let_def)

lemma upload_image_3:
  "os_path_exists w local_path = Inr True \<Longrightarrow>
   upload_image w local_path s3_key 3 =
     (let call = UploadFile local_path s3_key; k = failed_attempts w call 3 in
      (if k = 3 then Inr False
       else if s3_backend w (length (s3_calls w) + k) call = S3Ok then Inr True
       else Inl OtherException,
       w\<lparr>s3_calls := s3_calls w @ replicate (min (k + 1) 3) call,
         sleeps := sleeps w @ map (\<lambda>attempt. 2 ^ attempt) [0..<min k 2]\<rparr>))"
  by (simp add: upload_image_def attempt_loop_3 Let_def)

lemma map_of_dict_set: "map_of (dict_set d key v) key = Some v"
  by (simp add: dict_set_def update_conv)

lemma upload_image_False_3:
  assumes "os_path_exists w local_path = Inr True"
    and "upload_image w local_path s3_key 3 = (Inr False, w')"
  shows "failed_attempts w (UploadFile local_path s3_key) 3 = 3"
  using assms(2) unfolding upload_image_3 [OF assms(1)] Let_def
  by (auto split: if_splits)

lemma example_key:
  "get_s3_paths now (PStr ''Aug27_2025_06h47m10s_276'') (PStr ''/tmp/img.jpg'') =
     Inr (''snapshots/2025/08/27/img.jpg'', ''2025/08/27'')"
  by (simp add: get_s3_paths_def get_s3_paths_try_def py_split_def index0_def month_map_def
      os_path_basename_def basename_def)

text \<open>
  C9. A call of \<open>_process_event\<close> that returns either leaves the pending events as they
  were (an exception was caught before the event was buffered) or appends exactly one
  event: the received dict with the key \<open>s3_image_path\<close> set to a string \<open>v\<close>. That string
  is \<open>file_not_found\<close> when the image value is empty or absent, is the sentinel
  \<open>failed_to_save\<close>, or does not exist on disk; otherwise the image exists and \<open>v\<close> is
  the snapshot key computed by \<open>_get_s3_paths\<close> when \<open>upload_image\<close> returned true, and
  \<open>upload_failed\<close> when it returned false, all three attempts having failed.
\<close>

theorem process_event_s3_image_path:
  assumes "process_event now event_data svc w = Some (svc', w')"
  shows "events (event_buffer svc') = events (event_buffer svc) \<or>
    (\<exists>d v snapshot_key date_path.
       event_data = PDict d \<and>
       events (event_buffer svc') =
         events (event_buffer svc) @ [dict_set d ''s3_image_path'' (PStr v)] \<and>
       map_of (dict_set d ''s3_image_path'' (PStr v)) ''s3_image_path'' = Some (PStr v) \<and>
       (v = ''file_not_found'' \<and>
          (\<not> truthy (dict_get d ''image'' (PStr [])) \<or>
           dict_get d ''image'' (PStr []) = PStr ''failed_to_save'' \<or>
           os_path_exists w (dict_get d ''image'' (PStr [])) = Inr False)
        \<or>
        truthy (dict_get d ''image'' (PStr [])) \<and>
        dict_get d ''image'' (PStr []) \<noteq> PStr ''failed_to_save'' \<and>
        os_path_exists w (dict_get d ''image'' (PStr [])) = Inr True \<and>
        get_s3_paths now (dict_get d ''timestamp'' (PStr [])) (dict_get d ''image'' (PStr [])) =
          Inr (snapshot_key, date_path) \<and>
        (v = snapshot_key \<and>
           upload_image w (dict_get d ''image'' (PStr [])) snapshot_key 3 = (Inr True, w')
         \<or>
         v = ''upload_failed'' \<and>
           upload_image w (dict_get d ''image'' (PStr [])) snapshot_key 3 = (Inr False, w') \<and>
           failed_attempts w (UploadFile (dict_get d ''image'' (PStr [])) snapshot_key) 3 = 3)))"
proof (cases event_data)
  case (PDict d)
  let ?img = "dict_get d ''image'' (PStr [])"
  let ?ts = "dict_get d ''timestamp'' (PStr [])"
  show ?thesis
  proof (cases "truthy ?img \<and> ?img \<noteq> PStr ''failed_to_save''")
    case False
    with assms PDict show ?thesis
      by (auto simp: process_event_def process_event_try_def Let_def add_event_def with_lock_def
          map_of_dict_set split: option.splits prod.splits sum.splits if_splits)
  next
    case True
    show ?thesis
    proof (cases "os_path_exists w ?img")
      case (Inl e)
      with assms PDict True show ?thesis
        by (auto simp: process_event_def process_event_try_def Let_def)
    next
      case (Inr usable)
      show ?thesis
      proof (cases usable)
        case False
        with assms PDict True Inr show ?thesis
          by (auto simp: process_event_def process_event_try_def Let_def add_event_def
              with_lock_def map_of_dict_set split: option.splits prod.splits sum.splits if_splits)
      next
        case ex: True
        show ?thesis
        proof (cases "get_s3_paths now ?ts ?img")
          case (Inl e)
          with assms PDict True Inr ex show ?thesis
            by (auto simp: process_event_def process_event_try_def Let_def)
        next
          case paths: (Inr r)
          obtain key dp where r: "r = (key, dp)" by (cases r)
          obtain res w1 where up: "upload_image w ?img key 3 = (res, w1)"
            by (cases "upload_image w ?img key 3")
          show ?thesis
          proof (cases res)
            case (Inl e)
            with assms PDict True Inr ex paths r up show ?thesis
              by (auto simp: process_event_def process_event_try_def Let_def)
          next
            case rr: (Inr ok)
            have fail: "\<not> ok \<Longrightarrow> failed_attempts w (UploadFile ?img key) 3 = 3"
              using upload_image_False_3 [of w ?img key w1] Inr ex up rr by simp
            from assms PDict True Inr ex paths r up rr fail show ?thesis
              by (cases ok)
                (auto simp: process_event_def process_event_try_def Let_def add_event_def
                  with_lock_def map_of_dict_set split: option.splits prod.splits sum.splits if_splits)
          qed
        qed
      qed
    qed
  qed
qed (use assms in \<open>auto simp: process_event_def process_event_try_def\<close>)


theorem process_event_s3_image_path_witness:
  "process_event example_now (PDict example_event) (example_service []) (example_world 0) =
     Some ((example_service
              [example_event @ [(''s3_image_path'', PStr ''snapshots/2025/08/27/img.jpg'')]])
             \<lparr>events_received := 1, images_uploaded := 1\<rparr>,
           (example_world 0)
             \<lparr>s3_calls := [UploadFile (PStr ''/tmp/img.jpg'') ''snapshots/2025/08/27/img.jpg'']\<rparr>) \<and>
   process_event example_now (PDict example_event) (example_service []) (example_world 3) =
     Some ((example_service [example_event @ [(''s3_image_path'', PStr ''upload_failed'')]])
             \<lparr>events_received := 1, images_failed := 1\<rparr>,
           (example_world 3)
             \<lparr>s3_calls := replicate 3 (UploadFile (PStr ''/tmp/img.jpg'') ''snapshots/2025/08/27/img.jpg''),
               sleeps := [1, 2]\<rparr>) \<and>
   process_event example_now (PDict [(''image'', PStr ''failed_to_save'')]) (example_service [])
       (example_world 0) =
     Some ((example_service
              [[(''image'', PStr ''failed_to_save''), (''s3_image_path'', PStr ''file_not_found'')]])
             \<lparr>events_received := 1\<rparr>,
           example_world 0) \<and>
   failed_attempts (example_world 3)
     (UploadFile (PStr ''/tmp/img.jpg'') ''snapshots/2025/08/27/img.jpg'') 3 = 3"
proof -
  let ?key = "''snapshots/2025/08/27/img.jpg''"
  have h1: "process_event example_now (PDict example_event) (example_service []) (example_world 0) =
     Some ((example_service [example_event @ [(''s3_image_path'', PStr ?key)]])
             \<lparr>events_received := 1, images_uploaded := 1\<rparr>,
           (example_world 0)\<lparr>s3_calls := [UploadFile (PStr ''/tmp/img.jpg'') ?key]\<rparr>)"
    by (simp add: process_event_def process_event_try_def example_event_def dict_get_def
        dict_set_def os_path_exists_def example_world_def example_key upload_image_def upt_0_3
        add_event_def with_lock_def example_service_def Let_def)
  have h2: "process_event example_now (PDict example_event) (example_service []) (example_world 3) =
     Some ((example_service [example_event @ [(''s3_image_path'', PStr ''upload_failed'')]])
             \<lparr>events_received := 1, images_failed := 1\<rparr>,
           (example_world 3)\<lparr>s3_calls := replicate 3 (UploadFile (PStr ''/tmp/img.jpg'') ?key),
               sleeps := [1, 2]\<rparr>)"
    by (simp add: process_event_def process_event_try_def example_event_def dict_get_def
        dict_set_def os_path_exists_def example_world_def example_key upload_image_def upt_0_3
        add_event_def with_lock_def example_service_def Let_def numeral_3_eq_3)
  have h3: "process_event example_now (PDict [(''image'', PStr ''failed_to_save'')])
       (example_service []) (example_world 0) =
     Some ((example_service
              [[(''image'', PStr ''failed_to_save''), (''s3_image_path'', PStr ''file_not_found'')]])
             \<lparr>events_received := 1\<rparr>,
           example_world 0)"
    by (simp add: process_event_def process_event_try_def dict_get_def dict_set_def
        add_event_def with_lock_def example_service_def Let_def)
  have k: "failed_attempts (example_world 3) (UploadFile (PStr ''/tmp/img.jpg'') ?key) 3 = 3"
    using process_event_s3_image_path [OF h2]
    by (auto simp: example_service_def example_event_def dict_set_def dict_get_def example_key)
  from h1 h2 h3 k show ?thesis by simp
qed

text \<open>
  C4. Flushing a service whose buffer holds the events \<open>first_event # rest\<close> drains the
  buffer and issues one upload: every backend call it records is the same \<open>put_object\<close>,
  repeated only after a failed attempt (\<open>min (k + 1) 3\<close> calls for \<open>k\<close> failures in a row),
  so at most the last call stores an object. Its body is the JSON text of each event in
  arrival order, each followed by a newline; its key is \<open>logs/\<close>, the date path that
  \<open>_get_s3_paths\<close> computes for the timestamp of the first event, \<open>/events_\<close>, the
  hour, minute and second of the clock reading taken for the file name, and \<open>.jsonl\<close>.
\<close>

theorem flush_uploads_one_archive:
  assumes "\<not> lock (event_buffer svc)"
    and "events (event_buffer svc) = first_event # rest"
    and "call = PutObject
           (''logs/'' @ date_path @ ''/events_'' @ strftime_HMS now_key @ ''.jsonl'')
           (concat (map (\<lambda>event. json_dumps event @ [CHR 0x0A]) (first_event # rest)))"
    and "get_s3_paths now_path (dict_get first_event ''timestamp'' (PStr [])) (PStr []) =
           Inr (snapshot_key, date_path)"
    and "k = failed_attempts w call 3"
    and "uploaded = (k < 3 \<and> s3_backend w (length (s3_calls w) + k) call = S3Ok)"
  shows "\<exists>svc' w'.
      flush_event_buffer json_dumps t now_path now_key svc w = Some (svc', w') \<and>
      s3_calls w' = s3_calls w @ replicate (min (k + 1) 3) call \<and>
      events (event_buffer svc') = [] \<and>
      batches_uploaded svc' = batches_uploaded svc + (if uploaded then 1 else 0) \<and>
      batches_failed svc' = batches_failed svc + (if uploaded then 0 else 1)"
proof -
  let ?evs = "first_event # rest"
  let ?content = "concat (map (\<lambda>event. json_dumps event @ [CHR 0x0A]) ?evs)"
  let ?key = "''logs/'' @ date_path @ ''/events_'' @ strftime_HMS now_key @ ''.jsonl''"
  have drain: "get_and_clear_events t (event_buffer svc) =
      Some (?evs, (event_buffer svc)\<lparr>events := [], last_flush := t\<rparr>)"
    using assms(1,2) by (simp add: get_and_clear_events_unlocked)
  have content: "py_join [CHR 0x0A] (map json_dumps ?evs) @ [CHR 0x0A] = ?content"
    using py_join_newline [of "map json_dumps ?evs" "[CHR 0x0A]"]
    by (simp add: comp_def)
  have k3: "k \<le> 3"
    unfolding assms(5) failed_attempts_def
    using length_takeWhile_le [of _ "[0..<3]"] by (metis diff_zero length_upt)
  define res where "res = (if k = 3 then Inr False
       else if s3_backend w (length (s3_calls w) + k) call = S3Ok then Inr True
       else Inl OtherException)"
  define w2 where "w2 = w\<lparr>s3_calls := s3_calls w @ replicate (min (k + 1) 3) call,
         sleeps := sleeps w @ map (\<lambda>attempt. 2 ^ attempt) [0..<min k 2]\<rparr>"
  have up: "upload_jsonl w ?content ?key 3 = (res, w2)"
    unfolding res_def w2_def assms(5) assms(3) by (simp only: upload_jsonl_3 Let_def)
  have body: "flush_event_buffer_try json_dumps now_path now_key ?evs svc1 w =
      (case (res, w2) of
         (Inl e, w') \<Rightarrow> (Inl e, svc1, w')
       | (Inr True, w') \<Rightarrow> (Inr (), svc1\<lparr>batches_uploaded := batches_uploaded svc1 + 1\<rparr>, w')
       | (Inr False, w') \<Rightarrow> (Inr (), svc1\<lparr>batches_failed := batches_failed svc1 + 1\<rparr>, w'))"
    for svc1
    unfolding flush_event_buffer_try_def index0_def Let_def
    by (simp only: list.case sum.case prod.case assms(4) content up)
  show ?thesis
    unfolding flush_event_buffer_def drain
    using k3 by (auto simp: body res_def w2_def assms(6))
qed


theorem flush_uploads_one_archive_witness:
  "\<not> lock (event_buffer (example_service [example_event, [(''image'', PNone)]])) \<and>
   events (event_buffer (example_service [example_event, [(''image'', PNone)]])) =
     example_event # [[(''image'', PNone)]] \<and>
   get_s3_paths example_now (dict_get example_event ''timestamp'' (PStr [])) (PStr []) =
     Inr (''snapshots/2025/08/27/'', ''2025/08/27'') \<and>
   failed_attempts (example_world 0)
     (PutObject ''logs/2025/08/27/events_225700.jsonl''
        (''timestamp;image;'' @ [CHR 0x0A] @ ''image;'' @ [CHR 0x0A])) 3 = 0 \<and>
   (\<exists>svc' w'.
      flush_event_buffer example_dumps 160 example_now example_now
        (example_service [example_event, [(''image'', PNone)]]) (example_world 0) = Some (svc', w') \<and>
      s3_calls w' =
        [PutObject ''logs/2025/08/27/events_225700.jsonl''
           (''timestamp;image;'' @ [CHR 0x0A] @ ''image;'' @ [CHR 0x0A])] \<and>
      events (event_buffer svc') = [] \<and>
      batches_uploaded svc' = 1 \<and> batches_failed svc' = 0)"
proof -
  let ?svc = "example_service [example_event, [(''image'', PNone)]]"
  let ?call = "PutObject ''logs/2025/08/27/events_225700.jsonl''
        (''timestamp;image;'' @ [CHR 0x0A] @ ''image;'' @ [CHR 0x0A])"
  have a: "\<not> lock (event_buffer ?svc)"
    by (simp add: example_service_def)
  have b: "events (event_buffer ?svc) = example_event # [[(''image'', PNone)]]"
    by (simp add: example_service_def)
  have hms: "strftime_HMS example_now = ''225700''"
    by (simp add: strftime_HMS_def example_now_def fmt_02d_def str_nat_digit str_nat_step
        digit_char_def)
  have c: "?call = PutObject
       (''logs/'' @ ''2025/08/27'' @ ''/events_'' @ strftime_HMS example_now @ ''.jsonl'')
       (concat (map (\<lambda>event. example_dumps event @ [CHR 0x0A])
                    (example_event # [[(''image'', PNone)]])))"
    by (simp add: hms example_dumps_def example_event_def)
  have d: "get_s3_paths example_now (dict_get example_event ''timestamp'' (PStr [])) (PStr []) =
     Inr (''snapshots/2025/08/27/'', ''2025/08/27'')"
    by (simp add: example_event_def dict_get_def get_s3_paths_def get_s3_paths_try_def
        py_split_def index0_def month_map_def os_path_basename_def basename_def)
  have k: "0 = failed_attempts (example_world 0) ?call 3"
    by (simp add: failed_attempts_def example_world_def upt_0_3)
  from flush_uploads_one_archive [OF a b c d k refl, where t = 160]
  show ?thesis using a b d k
    by (auto simp: example_world_def example_service_def)
qed


end
